theory Spec2Isabelle
  imports Main
begin

section \<open>JavaScript values\<close>

text \<open>
  The component keeps whatever \<^verbatim>\<open>JSON.parse\<close> hands it, so its state holds untyped
  JavaScript values. Text is a \<^typ>\<open>string\<close>; a number keeps the literal it was read
  from (the rounding to a double is outside this development). An object is the list of
  its own properties in enumeration order: array indices ascending first, then the other
  keys in creation order.
\<close>

datatype jv =
    JUndefined
  | JNull
  | JBool bool
  | JNum string
  | JStr string
  | JArr "jv list"
  | JObj "(string \<times> jv) list"

datatype error = SyntaxError | TypeError | QuotaExceededError | SecurityError

definition is_digit :: "char \<Rightarrow> bool" where
  "is_digit c = (48 \<le> (of_char c :: nat) \<and> (of_char c :: nat) \<le> 57)"

definition digit_char :: "nat \<Rightarrow> char" where
  "digit_char n = ''0123456789'' ! (n mod 10)"

definition hex_char :: "nat \<Rightarrow> char" where
  "hex_char n = ''0123456789abcdef'' ! (n mod 16)"

function show_nat :: "nat \<Rightarrow> string" where
  \<comment> \<open>the decimal digits of a number\<close>
  "show_nat n = (if n < 10 then [digit_char n] else show_nat (n div 10) @ [digit_char n])"
  by pat_completeness auto
termination
  by (relation "measure (\<lambda>n. n)") auto

declare show_nat.simps [simp del]

definition dec_value :: "string \<Rightarrow> nat" where
  "dec_value s = foldl (\<lambda>a c. 10 * a + (of_char c - 48)) 0 s"

definition array_index :: "string \<Rightarrow> nat option" where
  \<comment> \<open>a canonical numeric key below \<open>2^32 - 1\<close> is an array index\<close>
  "array_index k =
     (if list_all is_digit k \<and> show_nat (dec_value k) = k \<and> dec_value k < 4294967295
      then Some (dec_value k) else None)"

fun insert_index :: "nat \<Rightarrow> string \<Rightarrow> jv \<Rightarrow> (string \<times> jv) list \<Rightarrow> (string \<times> jv) list" where
  "insert_index n k v [] = [(k, v)]"
| "insert_index n k v ((k', v') # ps) =
     (case array_index k' of
        Some m \<Rightarrow> if m < n then (k', v') # insert_index n k v ps else (k, v) # (k', v') # ps
      | None \<Rightarrow> (k, v) # (k', v') # ps)"

definition obj_set :: "(string \<times> jv) list \<Rightarrow> string \<Rightarrow> jv \<Rightarrow> (string \<times> jv) list" where
  \<comment> \<open>CreateDataProperty: an existing key keeps its place, a new one is enumerated last
      among its kind\<close>
  "obj_set ps k v =
     (if k \<in> fst ` set ps then map (\<lambda>(k', v'). if k' = k then (k', v) else (k', v')) ps
      else case array_index k of
             Some n \<Rightarrow> insert_index n k v ps
           | None \<Rightarrow> ps @ [(k, v)])"

fun get :: "jv \<Rightarrow> string \<Rightarrow> error + jv" where
  \<comment> \<open>\<^verbatim>\<open>v.k\<close> for the keys the component reads (form, timestamp, title, content), which
      no built-in prototype defines\<close>
  "get JUndefined k = Inl TypeError"
| "get JNull k = Inl TypeError"
| "get (JObj ps) k = Inr (case map_of ps k of None \<Rightarrow> JUndefined | Some v \<Rightarrow> v)"
| "get v k = Inr JUndefined"

fun truthy :: "jv \<Rightarrow> bool" where
  "truthy JUndefined = False"
| "truthy JNull = False"
| "truthy (JBool b) = b"
| "truthy (JNum lit) =
     list_ex (\<lambda>c. is_digit c \<and> c \<noteq> CHR ''0'')
       (takeWhile (\<lambda>c. c \<noteq> CHR ''e'' \<and> c \<noteq> CHR ''E'') lit)"
| "truthy (JStr s) = (s \<noteq> [])"
| "truthy (JArr xs) = True"
| "truthy (JObj ps) = True"

fun own_props :: "jv \<Rightarrow> (string \<times> jv) list" where
  \<comment> \<open>the own enumerable properties an object spread copies\<close>
  "own_props (JObj ps) = ps"
| "own_props (JArr xs) = map (\<lambda>i. (show_nat i, xs ! i)) [0..<length xs]"
| "own_props (JStr s) = map (\<lambda>i. (show_nat i, JStr [s ! i])) [0..<length s]"
| "own_props v = []"

subsection \<open>JSON.stringify\<close>

definition quote_char :: "char \<Rightarrow> string" where
  "quote_char c =
     (let n = (of_char c :: nat) in
      if n = 34 then [CHR 0x5C, CHR 0x22]
      else if n = 92 then [CHR 0x5C, CHR 0x5C]
      else if n = 8 then [CHR 0x5C, CHR ''b'']
      else if n = 9 then [CHR 0x5C, CHR ''t'']
      else if n = 10 then [CHR 0x5C, CHR ''n'']
      else if n = 12 then [CHR 0x5C, CHR ''f'']
      else if n = 13 then [CHR 0x5C, CHR ''r'']
      else if n < 32 then [CHR 0x5C, CHR ''u'', CHR ''0'', CHR ''0'', hex_char (n div 16), hex_char (n mod 16)]
      else [c])"

definition quote :: "string \<Rightarrow> string" where
  "quote s = CHR 0x22 # concat (map quote_char s) @ [CHR 0x22]"

fun join :: "string list \<Rightarrow> string" where
  "join [] = []"
| "join [x] = x"
| "join (x # y # ys) = x @ CHR '','' # join (y # ys)"

fun JSON_stringify :: "jv \<Rightarrow> string option"
  and stringify_elems :: "jv list \<Rightarrow> string list"
  and stringify_props :: "(string \<times> jv) list \<Rightarrow> string list" where
  "JSON_stringify JUndefined = None"
| "JSON_stringify JNull = Some ''null''"
| "JSON_stringify (JBool b) = Some (if b then ''true'' else ''false'')"
| "JSON_stringify (JNum lit) = Some lit"
| "JSON_stringify (JStr s) = Some (quote s)"
| "JSON_stringify (JArr xs) = Some (CHR ''['' # join (stringify_elems xs) @ '']'')"
| "JSON_stringify (JObj ps) = Some (CHR ''{'' # join (stringify_props ps) @ ''}'')"
| "stringify_elems [] = []"
| "stringify_elems (x # xs) =
     (case JSON_stringify x of None \<Rightarrow> ''null'' | Some t \<Rightarrow> t) # stringify_elems xs"
| "stringify_props [] = []"
| "stringify_props ((k, v) # ps) =
     (case JSON_stringify v of
        None \<Rightarrow> stringify_props ps
      | Some t \<Rightarrow> (quote k @ CHR '':'' # t) # stringify_props ps)"

subsection \<open>JSON.parse\<close>

datatype token =
    TLBrace | TRBrace | TLBrack | TRBrack | TColon | TComma
  | TString string | TNumber string | TWord string

datatype lexmode =
    LTop
  | LStr string
  | LEsc string
  | LHex string string
  | LNum string
  | LWord string

definition is_space :: "char \<Rightarrow> bool" where
  "is_space c = ((of_char c :: nat) \<in> {32, 9, 10, 13})"

definition is_hex :: "char \<Rightarrow> bool" where
  "is_hex c = (let n = (of_char c :: nat) in
     (48 \<le> n \<and> n \<le> 57) \<or> (65 \<le> n \<and> n \<le> 70) \<or> (97 \<le> n \<and> n \<le> 102))"

definition hex_digit :: "char \<Rightarrow> nat" where
  "hex_digit c = (let n = (of_char c :: nat) in
     if n \<le> 57 then n - 48 else if n \<le> 70 then n - 55 else n - 87)"

definition is_lower :: "char \<Rightarrow> bool" where
  "is_lower c = (97 \<le> (of_char c :: nat) \<and> (of_char c :: nat) \<le> 122)"

definition is_num_char :: "char \<Rightarrow> bool" where
  "is_num_char c = (is_digit c \<or> c \<in> {CHR ''-'', CHR ''+'', CHR ''.'', CHR ''e'', CHR ''E''})"

definition valid_exponent :: "string \<Rightarrow> bool" where
  "valid_exponent r =
     (case r of
        [] \<Rightarrow> True
      | c # r1 \<Rightarrow>
          (c = CHR ''e'' \<or> c = CHR ''E'') \<and>
          (let r2 = (case r1 of [] \<Rightarrow> [] | d # r' \<Rightarrow> if d = CHR ''+'' \<or> d = CHR ''-'' then r' else r1)
           in r2 \<noteq> [] \<and> list_all is_digit r2))"

definition valid_fraction :: "string \<Rightarrow> bool" where
  "valid_fraction r =
     (case r of
        [] \<Rightarrow> True
      | c # r1 \<Rightarrow>
          if c = CHR ''.''
          then takeWhile is_digit r1 \<noteq> [] \<and> valid_exponent (dropWhile is_digit r1)
          else valid_exponent r)"

definition valid_number :: "string \<Rightarrow> bool" where
  \<comment> \<open>the JSON number grammar: an optional minus, an integer part without leading zero,
      an optional fraction, an optional exponent\<close>
  "valid_number s =
     (let s1 = (case s of [] \<Rightarrow> [] | c # r \<Rightarrow> if c = CHR ''-'' then r else s);
          ip = takeWhile is_digit s1
      in (case ip of
            [] \<Rightarrow> False
          | c # r \<Rightarrow> (if c = CHR ''0'' then r = [] else True))
         \<and> valid_fraction (dropWhile is_digit s1))"

definition start :: "char \<Rightarrow> (token list \<times> lexmode) option" where
  \<comment> \<open>what a character means where a new token may begin\<close>
  "start c =
     (if is_space c then Some ([], LTop)
      else if c = CHR ''{'' then Some ([TLBrace], LTop)
      else if c = CHR ''}'' then Some ([TRBrace], LTop)
      else if c = CHR ''['' then Some ([TLBrack], LTop)
      else if c = CHR '']'' then Some ([TRBrack], LTop)
      else if c = CHR '':'' then Some ([TColon], LTop)
      else if c = CHR '','' then Some ([TComma], LTop)
      else if c = CHR 0x22 then Some ([], LStr [])
      else if c = CHR ''-'' \<or> is_digit c then Some ([], LNum [c])
      else if is_lower c then Some ([], LWord [c])
      else None)"

definition unescape :: "char \<Rightarrow> char option" where
  "unescape c =
     (if c = CHR 0x22 \<or> c = CHR 0x5C \<or> c = CHR ''/'' then Some c
      else if c = CHR ''b'' then Some (CHR 0x08)
      else if c = CHR ''f'' then Some (CHR 0x0C)
      else if c = CHR ''n'' then Some (CHR 0x0A)
      else if c = CHR ''r'' then Some (CHR 0x0D)
      else if c = CHR ''t'' then Some (CHR 0x09)
      else None)"

fun lex :: "lexmode \<Rightarrow> string \<Rightarrow> token list option" where
  "lex LTop [] = Some []"
| "lex LTop (c # cs) =
     (case start c of
        None \<Rightarrow> None
      | Some (ts, m) \<Rightarrow> map_option ((@) ts) (lex m cs))"
| "lex (LStr acc) [] = None"
| "lex (LStr acc) (c # cs) =
     (if c = CHR 0x22 then map_option ((#) (TString (rev acc))) (lex LTop cs)
      else if c = CHR 0x5C then lex (LEsc acc) cs
      else if (of_char c :: nat) < 32 then None
      else lex (LStr (c # acc)) cs)"
| "lex (LEsc acc) [] = None"
| "lex (LEsc acc) (c # cs) =
     (if c = CHR ''u'' then lex (LHex acc []) cs
      else case unescape c of
             None \<Rightarrow> None
           | Some d \<Rightarrow> lex (LStr (d # acc)) cs)"
| "lex (LHex acc hs) [] = None"
| "lex (LHex acc hs) (c # cs) =
     (if \<not> is_hex c then None
      else if length hs < 3 then lex (LHex acc (c # hs)) cs
      else let n = foldl (\<lambda>a h. 16 * a + hex_digit h) 0 (rev (c # hs))
           in if n < 256 then lex (LStr (char_of n # acc)) cs else None)"
| "lex (LNum acc) [] = (if valid_number (rev acc) then Some [TNumber (rev acc)] else None)"
| "lex (LNum acc) (c # cs) =
     (if is_num_char c then lex (LNum (c # acc)) cs
      else if \<not> valid_number (rev acc) then None
      else case start c of
             None \<Rightarrow> None
           | Some (ts, m) \<Rightarrow> map_option ((@) (TNumber (rev acc) # ts)) (lex m cs))"
| "lex (LWord acc) [] = Some [TWord (rev acc)]"
| "lex (LWord acc) (c # cs) =
     (if is_lower c then lex (LWord (c # acc)) cs
      else case start c of
             None \<Rightarrow> None
           | Some (ts, m) \<Rightarrow> map_option ((@) (TWord (rev acc) # ts)) (lex m cs))"

datatype frame = FArr "jv list" | FObj "(string \<times> jv) list" string

datatype pstate = SVal | SArr0 | SObj0 | SKey | SColon | SNext | SDone jv

definition complete :: "jv \<Rightarrow> frame list \<Rightarrow> (pstate \<times> frame list) option" where
  \<comment> \<open>a value has been read: it is the result, the next element or the value of the
      pending key\<close>
  "complete v st =
     (case st of
        [] \<Rightarrow> Some (SDone v, [])
      | FArr es # st' \<Rightarrow> Some (SNext, FArr (v # es) # st')
      | FObj ps k # st' \<Rightarrow> Some (SNext, FObj (obj_set ps k v) k # st'))"

definition word_value :: "string \<Rightarrow> jv option" where
  "word_value w =
     (if w = ''true'' then Some (JBool True)
      else if w = ''false'' then Some (JBool False)
      else if w = ''null'' then Some JNull
      else None)"

definition open_value :: "token \<Rightarrow> frame list \<Rightarrow> (pstate \<times> frame list) option" where
  \<comment> \<open>a token where a value is expected\<close>
  "open_value t st =
     (case t of
        TLBrace \<Rightarrow> Some (SObj0, FObj [] [] # st)
      | TLBrack \<Rightarrow> Some (SArr0, FArr [] # st)
      | TString s \<Rightarrow> complete (JStr s) st
      | TNumber n \<Rightarrow> complete (JNum n) st
      | TWord w \<Rightarrow> (case word_value w of None \<Rightarrow> None | Some v \<Rightarrow> complete v st)
      | _ \<Rightarrow> None)"

definition close_frame :: "token \<Rightarrow> frame list \<Rightarrow> (pstate \<times> frame list) option" where
  "close_frame t st =
     (case (t, st) of
        (TRBrack, FArr es # st') \<Rightarrow> complete (JArr (rev es)) st'
      | (TRBrace, FObj ps k # st') \<Rightarrow> complete (JObj ps) st'
      | _ \<Rightarrow> None)"

definition set_key :: "string \<Rightarrow> frame list \<Rightarrow> (pstate \<times> frame list) option" where
  "set_key k st =
     (case st of
        FObj ps k' # st' \<Rightarrow> Some (SColon, FObj ps k # st')
      | _ \<Rightarrow> None)"

fun pstep :: "pstate \<Rightarrow> frame list \<Rightarrow> token \<Rightarrow> (pstate \<times> frame list) option" where
  "pstep SVal st t = open_value t st"
| "pstep SArr0 st t = (if t = TRBrack then close_frame t st else open_value t st)"
| "pstep SObj0 st t =
     (case t of TRBrace \<Rightarrow> close_frame t st | TString k \<Rightarrow> set_key k st | _ \<Rightarrow> None)"
| "pstep SKey st t = (case t of TString k \<Rightarrow> set_key k st | _ \<Rightarrow> None)"
| "pstep SColon st t = (if t = TColon then Some (SVal, st) else None)"
| "pstep SNext st t =
     (case (t, st) of
        (TComma, FArr es # st') \<Rightarrow> Some (SVal, st)
      | (TComma, FObj ps k # st') \<Rightarrow> Some (SKey, st)
      | _ \<Rightarrow> close_frame t st)"
| "pstep (SDone v) st t = None"

fun parse_tokens :: "pstate \<Rightarrow> frame list \<Rightarrow> token list \<Rightarrow> jv option" where
  "parse_tokens (SDone v) [] [] = Some v"
| "parse_tokens p st [] = None"
| "parse_tokens p st (t # ts) =
     (case pstep p st t of
        None \<Rightarrow> None
      | Some (p', st') \<Rightarrow> parse_tokens p' st' ts)"

definition JSON_parse :: "string \<Rightarrow> error + jv" where
  "JSON_parse text =
     (case lex LTop text of
        None \<Rightarrow> Inl SyntaxError
      | Some ts \<Rightarrow>
          (case parse_tokens SVal [] ts of
             None \<Rightarrow> Inl SyntaxError
           | Some v \<Rightarrow> Inr v))"

subsection \<open>Date.prototype.toISOString\<close>

definition pad2 :: "nat \<Rightarrow> string" where
  "pad2 n = [digit_char (n div 10), digit_char n]"

definition pad3 :: "nat \<Rightarrow> string" where
  "pad3 n = digit_char (n div 100) # pad2 n"

definition pad4 :: "nat \<Rightarrow> string" where
  "pad4 n = digit_char (n div 1000) # pad3 n"

definition pad6 :: "nat \<Rightarrow> string" where
  "pad6 n = digit_char (n div 100000) # digit_char (n div 10000) # pad4 n"

text \<open>
  Year, month and day of a day count from 1970-01-01 in the proleptic Gregorian calendar:
  the day within its 400-year era, the year within the era, the day within the year
  (years begin in March), the month.
\<close>

definition month_day :: "nat \<Rightarrow> nat \<Rightarrow> nat \<Rightarrow> nat \<times> nat \<times> nat" where
  "month_day y doy mp =
     (if mp < 10 then (y, mp + 3, doy + 1 - (153 * mp + 2) div 5)
      else (y + 1, mp - 9, doy + 1 - (153 * mp + 2) div 5))"

definition year_day :: "nat \<Rightarrow> nat \<Rightarrow> nat \<Rightarrow> nat \<times> nat \<times> nat" where
  "year_day era doe yoe =
     (let doy = doe + yoe div 100 - 365 * yoe - yoe div 4
      in month_day (yoe + era * 400) doy ((5 * doy + 2) div 153))"

definition era_day :: "nat \<Rightarrow> nat \<Rightarrow> nat \<times> nat \<times> nat" where
  "era_day era doe =
     year_day era doe ((doe + doe div 36524 - doe div 1460 - doe div 146096) div 365)"

definition civil :: "nat \<Rightarrow> nat \<times> nat \<times> nat" where
  "civil days = era_day ((days + 719468) div 146097) ((days + 719468) mod 146097)"

definition clock_text :: "nat \<Rightarrow> string" where
  \<comment> \<open>hours, minutes, seconds and milliseconds of a time of day\<close>
  "clock_text t =
     pad2 (t div 3600000) @ '':'' @ pad2 (t div 60000 mod 60) @ '':''
     @ pad2 (t div 1000 mod 60) @ ''.'' @ pad3 (t mod 1000)"

definition toISOString :: "nat \<Rightarrow> string" where
  \<comment> \<open>the UTC timestamp of a count of milliseconds since the epoch\<close>
  "toISOString ms =
     (case civil (ms div 86400000) of
        (y, m, d) \<Rightarrow>
          (if y \<le> 9999 then pad4 y else CHR ''+'' # pad6 y) @ ''-'' @ pad2 m @ ''-'' @ pad2 d
          @ ''T'' @ clock_text (ms mod 86400000) @ ''Z'')"

section \<open>The browser: storage, timers, clock\<close>

text \<open>
  \<^verbatim>\<open>localStorage\<close> is a test double: a list of entries with a quota on the characters
  it holds and a switch for a browser that denies access. Every access raises while it is
  denied, and a write that would exceed the quota raises.
\<close>

record storage =
  items :: "(string \<times> string) list"
  capacity :: nat
  available :: bool

definition used :: "(string \<times> string) list \<Rightarrow> nat" where
  "used kvs = sum_list (map (\<lambda>(k, v). length k + length v) kvs)"

definition getItem :: "string \<Rightarrow> storage \<Rightarrow> error + string option" where
  "getItem k st = (if available st then Inr (map_of (items st) k) else Inl SecurityError)"

definition setItem :: "string \<Rightarrow> string \<Rightarrow> storage \<Rightarrow> error + storage" where
  "setItem k v st =
     (if \<not> available st then Inl SecurityError
      else let kvs = (k, v) # filter (\<lambda>p. fst p \<noteq> k) (items st)
           in if used kvs \<le> capacity st then Inr (st\<lparr>items := kvs\<rparr>)
              else Inl QuotaExceededError)"

definition removeItem :: "string \<Rightarrow> storage \<Rightarrow> error + storage" where
  "removeItem k st =
     (if available st then Inr (st\<lparr>items := filter (\<lambda>p. fst p \<noteq> k) (items st)\<rparr>)
      else Inl SecurityError)"

text \<open>
  A pending timer is its id, the milliseconds left and the closure to run. The closure of
  the debounce timer holds the \<^verbatim>\<open>form\<close> of the render that armed it.
\<close>

datatype callback = ShowLoaded | RunSave jv | ShowSaved

record timer =
  tid :: nat
  remaining :: nat
  cb :: callback

datatype status = Idle | Unsaved | Saving | Saved | Error

record world =
  form :: jv
  status :: status
  lastSaved :: jv
  saveTimerRef :: "nat option"
  statusTimerRef :: "nat option"
  formChanged :: bool
  hasCleanup :: bool
  mounted :: bool
  timers :: "timer list"
  nextId :: nat
  clock :: nat
  storage :: storage
  setCalls :: "(string \<times> string) list"

text \<open>
  \<open>formChanged\<close> says that \<^verbatim>\<open>setForm\<close> was called since the effects last ran (every
  call passes a fresh object, so the dependency \<^verbatim>\<open>[form]\<close> has changed); \<open>hasCleanup\<close>
  says that the last run of the auto-save effect returned its cleanup function;
  \<open>setCalls\<close> logs the arguments of every \<^verbatim>\<open>localStorage.setItem\<close> call, accepted or
  not. React drops a state update of a component that is no longer mounted.
\<close>

definition STORAGE_KEY :: string where
  "STORAGE_KEY = ''autoSaveFormData''"

definition SAVE_DELAY :: nat where
  "SAVE_DELAY = 2000"

definition initial_form :: jv where
  "initial_form = JObj [(''title'', JStr ''''), (''content'', JStr '''')]"

definition setTimeout :: "callback \<Rightarrow> nat \<Rightarrow> world \<Rightarrow> nat \<times> world" where
  "setTimeout c d w =
     (nextId w,
      w\<lparr>timers := timers w @ [\<lparr>tid = nextId w, remaining = d, cb = c\<rparr>],
        nextId := Suc (nextId w)\<rparr>)"

fun clearTimeout :: "nat option \<Rightarrow> world \<Rightarrow> world" where
  "clearTimeout None w = w"
| "clearTimeout (Some i) w = w\<lparr>timers := filter (\<lambda>t. tid t \<noteq> i) (timers w)\<rparr>"

definition setForm :: "jv \<Rightarrow> world \<Rightarrow> world" where
  "setForm f w = (if mounted w then w\<lparr>form := f, formChanged := True\<rparr> else w)"

definition setStatus :: "status \<Rightarrow> world \<Rightarrow> world" where
  "setStatus v w = (if mounted w then w\<lparr>status := v\<rparr> else w)"

definition setLastSaved :: "jv \<Rightarrow> world \<Rightarrow> world" where
  "setLastSaved v w = (if mounted w then w\<lparr>lastSaved := v\<rparr> else w)"

section \<open>AutoSaveForm\<close>

definition initial :: "storage \<Rightarrow> nat \<Rightarrow> world" where
  \<comment> \<open>the first render: \<^verbatim>\<open>useState\<close> and \<^verbatim>\<open>useRef\<close> defaults, no timer pending\<close>
  "initial st now =
     \<lparr>form = initial_form, status = Idle, lastSaved = JNull,
      saveTimerRef = None, statusTimerRef = None,
      formChanged = False, hasCleanup = False, mounted = True,
      timers = [], nextId = 1, clock = now, storage = st, setCalls = []\<rparr>"

definition loadEffect :: "world \<Rightarrow> world" where
  \<comment> \<open>the effect that loads on mount; its \<^verbatim>\<open>catch\<close> only logs\<close>
  "loadEffect w =
     (case getItem STORAGE_KEY (storage w) of
        Inl e \<Rightarrow> w
      | Inr None \<Rightarrow> w
      | Inr (Some saved) \<Rightarrow>
          if saved = [] then w
          else
            (case JSON_parse saved of
               Inl e \<Rightarrow> w
             | Inr data \<Rightarrow>
                 (case get data ''form'' of
                    Inl e \<Rightarrow> w
                  | Inr f \<Rightarrow>
                      (case get data ''timestamp'' of
                         Inl e \<Rightarrow> setForm f w
                       | Inr t \<Rightarrow>
                           snd (setTimeout ShowLoaded 2000
                                  (setStatus Saved (setLastSaved t (setForm f w))))))))"

definition formEmpty :: "jv \<Rightarrow> error + bool" where
  \<comment> \<open>\<^verbatim>\<open>!form.title && !form.content\<close>\<close>
  "formEmpty f =
     (case get f ''title'' of
        Inl e \<Rightarrow> Inl e
      | Inr t \<Rightarrow>
          if truthy t then Inr False
          else (case get f ''content'' of
                  Inl e \<Rightarrow> Inl e
                | Inr c \<Rightarrow> Inr (\<not> truthy c)))"

definition record_text :: "jv \<Rightarrow> nat \<Rightarrow> string" where
  \<comment> \<open>\<^verbatim>\<open>JSON.stringify({form, timestamp: new Date().toISOString()})\<close> as \<^verbatim>\<open>setItem\<close>
      receives it\<close>
  "record_text f now =
     (case JSON_stringify (JObj [(''form'', f), (''timestamp'', JStr (toISOString now))]) of
        None \<Rightarrow> ''undefined''
      | Some t \<Rightarrow> t)"

definition saveToLocalStorage :: "jv \<Rightarrow> world \<Rightarrow> world" where
  \<comment> \<open>the whole body is inside \<^verbatim>\<open>try\<close>, and the handler cannot raise\<close>
  "saveToLocalStorage f w =
     (let w1 = setStatus Saving w;
          text = record_text f (clock w1);
          w2 = w1\<lparr>setCalls := setCalls w1 @ [(STORAGE_KEY, text)]\<rparr>
      in case setItem STORAGE_KEY text (storage w2) of
           Inl e \<Rightarrow> setStatus Error w2
         | Inr st \<Rightarrow>
             (let w3 = setLastSaved (JStr (toISOString (clock w1))) (w2\<lparr>storage := st\<rparr>);
                  w4 = clearTimeout (statusTimerRef w3) w3;
                  (i, w5) = setTimeout ShowSaved 500 w4
              in w5\<lparr>statusTimerRef := Some i\<rparr>))"

definition autoSaveEffect :: "jv \<Rightarrow> world \<Rightarrow> error + world" where
  \<comment> \<open>the body of the auto-save effect, for the render whose \<^verbatim>\<open>form\<close> is \<open>f\<close>\<close>
  "autoSaveEffect f w =
     (case formEmpty f of
        Inl e \<Rightarrow> Inl e
      | Inr True \<Rightarrow> Inr (w\<lparr>hasCleanup := False\<rparr>)
      | Inr False \<Rightarrow>
          (let w1 = setStatus Unsaved w;
               w2 = clearTimeout (saveTimerRef w1) w1;
               (i, w3) = setTimeout (RunSave f) SAVE_DELAY w2
           in Inr (w3\<lparr>saveTimerRef := Some i, hasCleanup := True\<rparr>)))"

definition cleanup :: "world \<Rightarrow> world" where
  \<comment> \<open>the function the effect returned, if it returned one\<close>
  "cleanup w = (if hasCleanup w then clearTimeout (saveTimerRef w) w else w)"

definition rerender :: "world \<Rightarrow> error + world" where
  \<comment> \<open>after a handler: when \<^verbatim>\<open>form\<close> changed, the previous cleanup and then the effect\<close>
  "rerender w =
     (if formChanged w then autoSaveEffect (form w) (cleanup (w\<lparr>formChanged := False\<rparr>))
      else Inr w)"

definition mount :: "storage \<Rightarrow> nat \<Rightarrow> error + world" where
  \<comment> \<open>both effects run after the first render, whose \<^verbatim>\<open>form\<close> is the default; the
      state they set is rendered next\<close>
  "mount st now =
     (case autoSaveEffect initial_form (loadEffect (initial st now)) of
        Inl e \<Rightarrow> Inl e
      | Inr w \<Rightarrow> rerender w)"

definition unmount :: "world \<Rightarrow> world" where
  "unmount w = (if mounted w then (cleanup w)\<lparr>mounted := False, hasCleanup := False\<rparr> else w)"

definition edit :: "jv \<Rightarrow> world \<Rightarrow> error + world" where
  \<comment> \<open>\<^verbatim>\<open>setForm\<close> with a new document, and the render it causes\<close>
  "edit d w = (if mounted w then rerender (setForm d w) else Inr w)"

definition handleChange :: "string \<Rightarrow> string \<Rightarrow> world \<Rightarrow> error + world" where
  \<comment> \<open>\<^verbatim>\<open>setForm((prev) => ({ ...prev, [name]: value }))\<close>\<close>
  "handleChange name v w = edit (JObj (obj_set (own_props (form w)) name (JStr v))) w"

definition handleClear :: "bool \<Rightarrow> world \<Rightarrow> error + world" where
  \<comment> \<open>the argument is the answer to \<^verbatim>\<open>window.confirm\<close>\<close>
  "handleClear confirmed w =
     (if \<not> mounted w then Inr w
      else if \<not> confirmed then Inr w
      else let w1 = setStatus Idle (setLastSaved JNull (setForm initial_form w));
               w2 = (case removeItem STORAGE_KEY (storage w1) of
                       Inl e \<Rightarrow> w1
                     | Inr st \<Rightarrow> w1\<lparr>storage := st\<rparr>)
           in rerender w2)"

definition handleManualSave :: "world \<Rightarrow> error + world" where
  "handleManualSave w =
     (if mounted w then Inr (saveToLocalStorage (form w) (clearTimeout (saveTimerRef w) w))
      else Inr w)"

subsection \<open>Time\<close>

fun run_callback :: "callback \<Rightarrow> world \<Rightarrow> world" where
  "run_callback ShowLoaded w = setStatus Saved w"
| "run_callback (RunSave f) w = saveToLocalStorage f w"
| "run_callback ShowSaved w = setStatus Saved w"

definition fire :: "nat \<Rightarrow> world \<Rightarrow> world" where
  \<comment> \<open>run the timer with this id, unless an earlier callback cancelled it\<close>
  "fire i w =
     (case find (\<lambda>t. tid t = i) (timers w) of
        None \<Rightarrow> w
      | Some t \<Rightarrow> run_callback (cb t) (w\<lparr>timers := filter (\<lambda>t. tid t \<noteq> i) (timers w)\<rparr>))"

definition tick :: "world \<Rightarrow> world" where
  \<comment> \<open>one millisecond passes; the timers that are due run in the order they were armed\<close>
  "tick w =
     (let w1 = w\<lparr>clock := Suc (clock w),
                 timers := map (\<lambda>t. t\<lparr>remaining := remaining t - 1\<rparr>) (timers w)\<rparr>
      in fold fire (map tid (filter (\<lambda>t. remaining t = 0) (timers w1))) w1)"

fun advance :: "nat \<Rightarrow> world \<Rightarrow> world" where
  "advance 0 w = w"
| "advance (Suc n) w = advance n (tick w)"

datatype event = Change string string | Clear bool | ManualSave | Tick | Unmount

fun step :: "event \<Rightarrow> world \<Rightarrow> error + world" where
  "step (Change name v) w = handleChange name v w"
| "step (Clear confirmed) w = handleClear confirmed w"
| "step ManualSave w = handleManualSave w"
| "step Tick w = Inr (tick w)"
| "step Unmount w = Inr (unmount w)"

fun run :: "event list \<Rightarrow> world \<Rightarrow> error + world" where
  "run [] w = Inr w"
| "run (e # es) w = (case step e w of Inl x \<Rightarrow> Inl x | Inr w' \<Rightarrow> run es w')"

inductive reachable :: "world \<Rightarrow> bool" where
  reach_mount: "mount st now = Inr w \<Longrightarrow> reachable w"
| reach_step: "reachable w \<Longrightarrow> step e w = Inr w' \<Longrightarrow> reachable w'"

section \<open>Pending saves and the timer invariant\<close>

fun is_save :: "callback \<Rightarrow> bool" where
  "is_save (RunSave f) = True"
| "is_save c = False"

definition saves :: "world \<Rightarrow> timer list" where
  \<comment> \<open>the pending timers that will write to the store\<close>
  "saves w = filter (\<lambda>t. is_save (cb t)) (timers w)"

definition wf_world :: "world \<Rightarrow> bool" where
  \<comment> \<open>timer ids are unique and were handed out by \<open>setTimeout\<close>; a pending save is the
      one \<^verbatim>\<open>saveTimerRef\<close> names, and the effect that armed it left its cleanup\<close>
  "wf_world w =
     (distinct (map tid (timers w)) \<and> list_all (\<lambda>t. tid t < nextId w) (timers w)
      \<and> list_all (\<lambda>t. hasCleanup w \<and> mounted w \<and> saveTimerRef w = Some (tid t)) (saves w))"

section \<open>Documents, bursts and example worlds\<close>

text \<open>
  A document is an object with the two text fields of the form. \<open>burst\<close> is a sequence of
  edits, each after a pause; \<open>armed d r\<close> says that exactly one save is pending, of the
  document \<open>d\<close> and due in \<open>r\<close> ms; \<open>store_after\<close> is the store after one call of
  \<^verbatim>\<open>setItem\<close>. \<open>typing_world\<close> is the component mounted on an empty store at time 0
  after ``A'' was typed into the title, \<open>saved_world\<close> the same world 2000 ms later.
  \<open>no_saved_record\<close> says that the load effect finds nothing to take over;
  \<open>valid_saved_record\<close> says that a stored text is the record of a document and a
  timestamp.
\<close>

definition doc :: "string \<Rightarrow> string \<Rightarrow> jv" where
  "doc t c = JObj [(''title'', JStr t), (''content'', JStr c)]"

definition empty_store :: storage where
  "empty_store = \<lparr>items = [], capacity = 5000000, available = True\<rparr>"

definition typing_world :: world where
  "typing_world =
     \<lparr>form = doc ''A'' '''', status = Unsaved, lastSaved = JNull,
      saveTimerRef = Some 1, statusTimerRef = None,
      formChanged = False, hasCleanup = True, mounted = True,
      timers = [\<lparr>tid = 1, remaining = SAVE_DELAY, cb = RunSave (doc ''A'' '''')\<rparr>],
      nextId = 2, clock = 0, storage = empty_store, setCalls = []\<rparr>"







definition saved_text :: string where
  \<open>saved_text = ''{"form":{"title":"A","content":""},"timestamp":"1970-01-01T00:00:02.000Z"}''\<close>

definition saved_world :: world where
  "saved_world =
     \<lparr>form = doc ''A'' '''', status = Saving, lastSaved = JStr ''1970-01-01T00:00:02.000Z'',
      saveTimerRef = Some 1, statusTimerRef = Some 2,
      formChanged = False, hasCleanup = True, mounted = True,
      timers = [\<lparr>tid = 2, remaining = 500, cb = ShowSaved\<rparr>],
      nextId = 3, clock = 2000, storage = empty_store\<lparr>items := [(STORAGE_KEY, saved_text)]\<rparr>,
      setCalls = [(STORAGE_KEY, saved_text)]\<rparr>"

definition blank_text :: string where
  \<open>blank_text = ''{"form":{"title":"","content":""},"timestamp":"1970-01-01T00:00:00.000Z"}''\<close>

definition resaved_text :: string where
  \<open>resaved_text = ''{"form":{"title":"A","content":""},"timestamp":"1970-01-01T00:00:07.000Z"}''\<close>

section \<open>Properties of the timers\<close>

lemmas setters = setForm_def setStatus_def setLastSaved_def

lemma setStatus_fields [simp]:
  "timers (setStatus v w) = timers w" "nextId (setStatus v w) = nextId w"
  "mounted (setStatus v w) = mounted w" "hasCleanup (setStatus v w) = hasCleanup w"
  "saveTimerRef (setStatus v w) = saveTimerRef w" "setCalls (setStatus v w) = setCalls w"
  "clock (setStatus v w) = clock w" "storage (setStatus v w) = storage w"
  "lastSaved (setStatus v w) = lastSaved w" "form (setStatus v w) = form w"
  "statusTimerRef (setStatus v w) = statusTimerRef w"
  by (simp_all add: setStatus_def)

lemma setLastSaved_fields [simp]:
  "timers (setLastSaved v w) = timers w" "nextId (setLastSaved v w) = nextId w"
  "mounted (setLastSaved v w) = mounted w" "hasCleanup (setLastSaved v w) = hasCleanup w"
  "saveTimerRef (setLastSaved v w) = saveTimerRef w" "setCalls (setLastSaved v w) = setCalls w"
  "clock (setLastSaved v w) = clock w" "storage (setLastSaved v w) = storage w"
  "status (setLastSaved v w) = status w" "form (setLastSaved v w) = form w"
  "statusTimerRef (setLastSaved v w) = statusTimerRef w"
  by (simp_all add: setLastSaved_def)

lemma setForm_fields [simp]:
  "timers (setForm v w) = timers w" "nextId (setForm v w) = nextId w"
  "mounted (setForm v w) = mounted w" "hasCleanup (setForm v w) = hasCleanup w"
  "saveTimerRef (setForm v w) = saveTimerRef w" "setCalls (setForm v w) = setCalls w"
  "clock (setForm v w) = clock w" "storage (setForm v w) = storage w"
  "status (setForm v w) = status w" "lastSaved (setForm v w) = lastSaved w"
  "statusTimerRef (setForm v w) = statusTimerRef w"
  by (simp_all add: setForm_def)

lemma clearTimeout_fields [simp]:
  "nextId (clearTimeout r w) = nextId w" "mounted (clearTimeout r w) = mounted w"
  "hasCleanup (clearTimeout r w) = hasCleanup w" "saveTimerRef (clearTimeout r w) = saveTimerRef w"
  "setCalls (clearTimeout r w) = setCalls w" "clock (clearTimeout r w) = clock w"
  "storage (clearTimeout r w) = storage w" "status (clearTimeout r w) = status w"
  "lastSaved (clearTimeout r w) = lastSaved w" "form (clearTimeout r w) = form w"
  "statusTimerRef (clearTimeout r w) = statusTimerRef w"
  "formChanged (clearTimeout r w) = formChanged w"
  by (cases r; simp)+

lemma saves_setters [simp]:
  "saves (setStatus v w) = saves w" "saves (setLastSaved u w) = saves w"
  "saves (setForm u w) = saves w"
  by (simp_all add: saves_def)

lemma saves_filter: "saves (w\<lparr>timers := filter P (timers w)\<rparr>) = filter P (saves w)"
  by (induction "timers w" arbitrary: w) (auto simp: saves_def intro: filter_cong)

lemma saves_clearTimeout_empty: "saves w = [] \<Longrightarrow> saves (clearTimeout r w) = []"
  by (cases r) (simp_all add: saves_filter)

lemma run_callback_not_save:
  "\<not> is_save c \<Longrightarrow> run_callback c w = setStatus Saved w"
  by (cases c) simp_all

lemma find_in_set: "find P xs = Some x \<Longrightarrow> x \<in> set xs \<and> P x"
  by (induction xs) (auto split: if_splits)

lemma fire_quiet:
  assumes "saves w = []"
  shows "saves (fire i w) = [] \<and> setCalls (fire i w) = setCalls w"
proof (cases "find (\<lambda>t. tid t = i) (timers w)")
  case None
  with assms show ?thesis by (simp add: fire_def)
next
  case (Some t)
  then have "t \<in> set (timers w)" by (simp add: find_in_set)
  with assms have "\<not> is_save (cb t)" by (auto simp: saves_def filter_empty_conv)
  then have "fire i w = setStatus Saved (w\<lparr>timers := filter (\<lambda>t. tid t \<noteq> i) (timers w)\<rparr>)"
    using Some by (simp add: fire_def run_callback_not_save)
  with assms show ?thesis
    by (simp add: setStatus_def saves_def filter_empty_conv)
qed

lemma fold_fire_quiet:
  "saves w = [] \<Longrightarrow> saves (fold fire ids w) = [] \<and> setCalls (fold fire ids w) = setCalls w"
proof (induction ids arbitrary: w)
  case Nil
  then show ?case by simp
next
  case (Cons i ids)
  from Cons.prems have "saves (fire i w) = []" and "setCalls (fire i w) = setCalls w"
    by (simp_all add: fire_quiet)
  with Cons.IH [of "fire i w"] show ?case by simp
qed

lemma saves_aged:
  "saves (w\<lparr>clock := c, timers := map (\<lambda>t. t\<lparr>remaining := g t\<rparr>) (timers w)\<rparr>)
     = map (\<lambda>t. t\<lparr>remaining := g t\<rparr>) (saves w)"
  by (simp add: saves_def filter_map comp_def)

lemma tick_quiet:
  assumes "saves w = []"
  shows "saves (tick w) = [] \<and> setCalls (tick w) = setCalls w"
proof -
  let ?w1 = "w\<lparr>clock := Suc (clock w),
               timers := map (\<lambda>t. t\<lparr>remaining := remaining t - 1\<rparr>) (timers w)\<rparr>"
  have "saves ?w1 = []" using assms by (simp add: saves_aged)
  from fold_fire_quiet [OF this] show ?thesis by (simp add: tick_def Let_def)
qed

lemma advance_quiet:
  "saves w = [] \<Longrightarrow> saves (advance k w) = [] \<and> setCalls (advance k w) = setCalls w"
proof (induction k arbitrary: w)
  case 0
  then show ?case by simp
next
  case (Suc k)
  from Suc.prems have "saves (tick w) = []" and "setCalls (tick w) = setCalls w"
    by (simp_all add: tick_quiet)
  with Suc.IH [of "tick w"] show ?case by simp
qed

lemma wf_filter: "wf_world w \<Longrightarrow> wf_world (w\<lparr>timers := filter P (timers w)\<rparr>)"
  by (auto simp: wf_world_def saves_filter distinct_map_filter list_all_iff)

lemma wf_clearTimeout: "wf_world w \<Longrightarrow> wf_world (clearTimeout r w)"
  by (cases r) (simp_all add: wf_filter)

lemma wf_setStatus: "wf_world (setStatus v w) = wf_world w"
  by (simp add: wf_world_def)

lemma wf_setLastSaved: "wf_world (setLastSaved v w) = wf_world w"
  by (simp add: wf_world_def)

lemma wf_setForm: "wf_world (setForm v w) = wf_world w"
  by (simp add: wf_world_def)

lemma wf_other_fields [simp]:
  "wf_world (w\<lparr>setCalls := c\<rparr>) = wf_world w" "wf_world (w\<lparr>storage := st\<rparr>) = wf_world w"
  "wf_world (w\<lparr>statusTimerRef := r\<rparr>) = wf_world w" "wf_world (w\<lparr>formChanged := b\<rparr>) = wf_world w"
  by (simp_all add: wf_world_def saves_def)

lemma wf_setTimeout:
  "wf_world w \<Longrightarrow> \<not> is_save c \<Longrightarrow> wf_world (snd (setTimeout c d w))"
  by (auto simp: wf_world_def saves_def setTimeout_def list_all_iff)

lemma wf_saveToLocalStorage: "wf_world w \<Longrightarrow> wf_world (saveToLocalStorage f w)"
proof -
  assume i: "wf_world w"
  let ?w1 = "setStatus Saving w"
  let ?text = "record_text f (clock ?w1)"
  let ?w2 = "?w1\<lparr>setCalls := setCalls ?w1 @ [(STORAGE_KEY, ?text)]\<rparr>"
  have "wf_world ?w1" using i by (simp add: wf_setStatus)
  then have i2: "wf_world ?w2" by simp
  show ?thesis
  proof (cases "setItem STORAGE_KEY ?text (storage ?w2)")
    case (Inl e)
    then show ?thesis using i2 by (simp add: saveToLocalStorage_def Let_def wf_setStatus)
  next
    case (Inr st)
    let ?w3 = "setLastSaved (JStr (toISOString (clock ?w1))) (?w2\<lparr>storage := st\<rparr>)"
    have "wf_world ?w3" using i2 by (simp add: wf_setLastSaved)
    then have "wf_world (clearTimeout (statusTimerRef ?w3) ?w3)" by (rule wf_clearTimeout)
    then have "wf_world (snd (setTimeout ShowSaved 500 (clearTimeout (statusTimerRef ?w3) ?w3)))"
      by (rule wf_setTimeout) simp
    then have "wf_world ((snd (setTimeout ShowSaved 500 (clearTimeout (statusTimerRef ?w3) ?w3)))
                 \<lparr>statusTimerRef := Some (nextId (clearTimeout (statusTimerRef ?w3) ?w3))\<rparr>)"
      by simp
    with Inr show ?thesis
      by (simp add: saveToLocalStorage_def Let_def setTimeout_def split_def)
  qed
qed

lemma wf_fire: "wf_world w \<Longrightarrow> wf_world (fire i w)"
proof (cases "find (\<lambda>t. tid t = i) (timers w)")
  case None
  assume "wf_world w"
  with None show ?thesis by (simp add: fire_def)
next
  case (Some t)
  assume "wf_world w"
  then have "wf_world (w\<lparr>timers := filter (\<lambda>t. tid t \<noteq> i) (timers w)\<rparr>)" by (rule wf_filter)
  then have "wf_world (run_callback (cb t) (w\<lparr>timers := filter (\<lambda>t. tid t \<noteq> i) (timers w)\<rparr>))"
    by (cases "cb t") (simp_all add: wf_setStatus wf_saveToLocalStorage)
  with Some show ?thesis by (simp add: fire_def)
qed

lemma wf_fold_fire: "wf_world w \<Longrightarrow> wf_world (fold fire ids w)"
  by (induction ids arbitrary: w) (simp_all add: wf_fire)

lemma wf_aged:
  "wf_world w \<Longrightarrow> wf_world (w\<lparr>clock := c, timers := map (\<lambda>t. t\<lparr>remaining := g t\<rparr>) (timers w)\<rparr>)"
  by (simp add: wf_world_def saves_aged list_all_iff comp_def)

lemma wf_tick: "wf_world w \<Longrightarrow> wf_world (tick w)"
  by (simp add: tick_def Let_def wf_fold_fire wf_aged)

lemma wf_advance: "wf_world w \<Longrightarrow> wf_world (advance k w)"
  by (induction k arbitrary: w) (simp_all add: wf_tick)

lemma saves_cleanup: "wf_world w \<Longrightarrow> saves (cleanup w) = []"
proof -
  assume i: "wf_world w"
  from i have all: "\<forall>u \<in> set (saves w). hasCleanup w \<and> saveTimerRef w = Some (tid u)"
    unfolding wf_world_def list_all_iff by blast
  show ?thesis
  proof (cases "saves w")
    case Nil
    then show ?thesis by (simp add: cleanup_def saves_clearTimeout_empty)
  next
    case (Cons t ts)
    from Cons have "t \<in> set (saves w)" by simp
    with all have h: "hasCleanup w" and r: "saveTimerRef w = Some (tid t)" by auto
    have "\<forall>u \<in> set (saves w). tid u = tid t"
    proof
      fix u assume "u \<in> set (saves w)"
      with all have "saveTimerRef w = Some (tid u)" by blast
      with r show "tid u = tid t" by simp
    qed
    then have "filter (\<lambda>u. tid u \<noteq> tid t) (saves w) = []" by (simp add: filter_empty_conv)
    with h r show ?thesis by (simp add: cleanup_def saves_filter)
  qed
qed

lemma wf_cleanup: "wf_world w \<Longrightarrow> wf_world (cleanup w)"
  by (simp add: cleanup_def wf_clearTimeout)

lemma wf_quiet: "saves w = [] \<Longrightarrow> wf_world w \<Longrightarrow> wf_world (w\<lparr>hasCleanup := b\<rparr>)"
  by (simp add: wf_world_def saves_def)

lemma wf_quiet_unmounted:
  "saves w = [] \<Longrightarrow> wf_world w \<Longrightarrow> wf_world (w\<lparr>mounted := m, hasCleanup := b\<rparr>)"
  by (simp add: wf_world_def saves_def)

lemma rerender_wf:
  assumes "wf_world w" "mounted w" "rerender w = Inr w'"
  shows "wf_world w' \<and> mounted w'"
proof (cases "formChanged w")
  case False
  with assms show ?thesis by (simp add: rerender_def)
next
  case True
  let ?w1 = "cleanup (w\<lparr>formChanged := False\<rparr>)"
  have i0: "wf_world (w\<lparr>formChanged := False\<rparr>)" using assms(1) by simp
  then have i1: "wf_world ?w1" and q1: "saves ?w1 = []" by (simp_all add: wf_cleanup saves_cleanup)
  have m1: "mounted ?w1" using assms(2) by (simp add: cleanup_def)
  from assms(3) True have eff: "autoSaveEffect (form w) ?w1 = Inr w'" by (simp add: rerender_def)
  show ?thesis
  proof (cases "formEmpty (form w)")
    case (Inl e)
    with eff show ?thesis by (simp add: autoSaveEffect_def)
  next
    case (Inr b)
    show ?thesis
    proof (cases b)
      case True
      with Inr eff have "w' = ?w1\<lparr>hasCleanup := False\<rparr>" by (simp add: autoSaveEffect_def)
      with i1 q1 m1 show ?thesis by (simp add: wf_quiet)
    next
      case False
      let ?w2 = "clearTimeout (saveTimerRef (setStatus Unsaved ?w1)) (setStatus Unsaved ?w1)"
      have i2: "wf_world ?w2" using i1 by (simp add: wf_clearTimeout wf_setStatus)
      have q2: "saves ?w2 = []" using q1 by (simp add: saves_clearTimeout_empty)
      have m2: "mounted ?w2" using m1 by simp
      from False Inr eff have w': "w' = ?w2\<lparr>timers := timers ?w2 @ [\<lparr>tid = nextId ?w2, remaining = SAVE_DELAY, cb = RunSave (form w)\<rparr>],
                      nextId := Suc (nextId ?w2), saveTimerRef := Some (nextId ?w2), hasCleanup := True\<rparr>"
        by (simp add: autoSaveEffect_def Let_def setTimeout_def)
      from i2 q2 m2 show ?thesis unfolding w'
        by (auto simp: wf_world_def saves_def list_all_iff filter_empty_conv)
    qed
  qed
qed

lemma setTimeout_fields [simp]:
  "mounted (snd (setTimeout c d w)) = mounted w" "clock (snd (setTimeout c d w)) = clock w"
  "setCalls (snd (setTimeout c d w)) = setCalls w" "storage (snd (setTimeout c d w)) = storage w"
  "status (snd (setTimeout c d w)) = status w" "form (snd (setTimeout c d w)) = form w"
  "lastSaved (snd (setTimeout c d w)) = lastSaved w"
  "hasCleanup (snd (setTimeout c d w)) = hasCleanup w"
  "saveTimerRef (snd (setTimeout c d w)) = saveTimerRef w"
  "formChanged (snd (setTimeout c d w)) = formChanged w"
  by (simp_all add: setTimeout_def)

lemma saves_setTimeout: "\<not> is_save c \<Longrightarrow> saves (snd (setTimeout c d w)) = saves w"
  by (simp add: saves_def setTimeout_def)

lemma saves_other_fields [simp]:
  "saves (w\<lparr>setCalls := c\<rparr>) = saves w" "saves (w\<lparr>storage := st\<rparr>) = saves w"
  "saves (w\<lparr>statusTimerRef := r\<rparr>) = saves w" "saves (w\<lparr>formChanged := b\<rparr>) = saves w"
  "saves (w\<lparr>hasCleanup := b\<rparr>) = saves w" "saves (w\<lparr>mounted := b\<rparr>) = saves w"
  by (simp_all add: saves_def)

lemma saveToLocalStorage_fields [simp]:
  "mounted (saveToLocalStorage f w) = mounted w" "clock (saveToLocalStorage f w) = clock w"
  "hasCleanup (saveToLocalStorage f w) = hasCleanup w"
  "saveTimerRef (saveToLocalStorage f w) = saveTimerRef w"
  "form (saveToLocalStorage f w) = form w"
  "setCalls (saveToLocalStorage f w) = setCalls w @ [(STORAGE_KEY, record_text f (clock w))]"
  by (simp_all add: saveToLocalStorage_def Let_def setTimeout_def split: sum.splits)

lemma saves_saveToLocalStorage: "saves w = [] \<Longrightarrow> saves (saveToLocalStorage f w) = []"
  by (simp add: saveToLocalStorage_def Let_def split_def saves_setTimeout saves_clearTimeout_empty
      split: sum.splits)

lemma fire_fields [simp]:
  "mounted (fire i w) = mounted w" "clock (fire i w) = clock w"
  "hasCleanup (fire i w) = hasCleanup w" "saveTimerRef (fire i w) = saveTimerRef w"
  "form (fire i w) = form w"
proof -
  have "mounted (fire i w) = mounted w \<and> clock (fire i w) = clock w
      \<and> hasCleanup (fire i w) = hasCleanup w \<and> saveTimerRef (fire i w) = saveTimerRef w
      \<and> form (fire i w) = form w"
  proof (cases "find (\<lambda>t. tid t = i) (timers w)")
    case None
    then show ?thesis by (simp add: fire_def)
  next
    case (Some t)
    then show ?thesis by (cases "cb t") (simp_all add: fire_def)
  qed
  then show "mounted (fire i w) = mounted w" "clock (fire i w) = clock w"
    "hasCleanup (fire i w) = hasCleanup w" "saveTimerRef (fire i w) = saveTimerRef w"
    "form (fire i w) = form w"
    by simp_all
qed

lemma fold_fire_fields [simp]:
  "mounted (fold fire ids w) = mounted w" "clock (fold fire ids w) = clock w"
  "hasCleanup (fold fire ids w) = hasCleanup w"
  "saveTimerRef (fold fire ids w) = saveTimerRef w" "form (fold fire ids w) = form w"
  by (induction ids arbitrary: w) simp_all

lemma tick_fields [simp]:
  "mounted (tick w) = mounted w" "clock (tick w) = Suc (clock w)"
  "hasCleanup (tick w) = hasCleanup w" "saveTimerRef (tick w) = saveTimerRef w"
  "form (tick w) = form w"
  by (simp_all add: tick_def Let_def)

lemma advance_fields [simp]:
  "mounted (advance k w) = mounted w" "clock (advance k w) = clock w + k"
  "hasCleanup (advance k w) = hasCleanup w" "saveTimerRef (advance k w) = saveTimerRef w"
  "form (advance k w) = form w"
  by (induction k arbitrary: w) simp_all

lemma cleanup_fields [simp]:
  "nextId (cleanup w) = nextId w" "mounted (cleanup w) = mounted w"
  "setCalls (cleanup w) = setCalls w" "clock (cleanup w) = clock w"
  "storage (cleanup w) = storage w" "status (cleanup w) = status w"
  "lastSaved (cleanup w) = lastSaved w" "form (cleanup w) = form w"
  "saveTimerRef (cleanup w) = saveTimerRef w"
  by (simp_all add: cleanup_def)


lemma fire_quiet_storage: "saves w = [] \<Longrightarrow> storage (fire i w) = storage w"
proof (cases "find (\<lambda>t. tid t = i) (timers w)")
  case None
  then show ?thesis by (simp add: fire_def)
next
  case (Some t)
  assume q: "saves w = []"
  from Some have "t \<in> set (timers w)" by (simp add: find_in_set)
  with q have "\<not> is_save (cb t)" by (auto simp: saves_def filter_empty_conv)
  with Some show ?thesis by (simp add: fire_def run_callback_not_save)
qed

lemma fold_fire_quiet_storage: "saves w = [] \<Longrightarrow> storage (fold fire ids w) = storage w"
proof (induction ids arbitrary: w)
  case Nil
  then show ?case by simp
next
  case (Cons i ids)
  from Cons.prems have "saves (fire i w) = []" and "storage (fire i w) = storage w"
    by (simp_all add: fire_quiet fire_quiet_storage)
  with Cons.IH [of "fire i w"] show ?case by simp
qed

lemma tick_quiet_storage: "saves w = [] \<Longrightarrow> storage (tick w) = storage w"
proof -
  assume "saves w = []"
  then have "saves (w\<lparr>clock := Suc (clock w),
       timers := map (\<lambda>t. t\<lparr>remaining := remaining t - 1\<rparr>) (timers w)\<rparr>) = []"
    by (simp add: saves_aged)
  from fold_fire_quiet_storage [OF this] show ?thesis by (simp add: tick_def Let_def)
qed

lemma advance_quiet_storage: "saves w = [] \<Longrightarrow> storage (advance k w) = storage w"
proof (induction k arbitrary: w)
  case 0
  then show ?case by simp
next
  case (Suc k)
  from Suc.prems have "saves (tick w) = []" and "storage (tick w) = storage w"
    by (simp_all add: tick_quiet tick_quiet_storage)
  with Suc.IH [of "tick w"] show ?case by simp
qed

lemma formEmpty_initial: "formEmpty initial_form = Inr True"
  by (simp add: formEmpty_def initial_form_def)

lemma loadEffect_wf:
  assumes "wf_world w" "saves w = []"
  shows "wf_world (loadEffect w) \<and> saves (loadEffect w) = [] \<and> mounted (loadEffect w) = mounted w"
  using assms
  by (simp add: loadEffect_def wf_setForm wf_setStatus wf_setLastSaved wf_setTimeout
      saves_setTimeout split: sum.splits option.splits)

lemma wf_initial: "wf_world (initial st now) \<and> saves (initial st now) = [] \<and> mounted (initial st now)"
  by (simp add: initial_def wf_world_def saves_def)

lemma mount_wf:
  assumes "mount st now = Inr w"
  shows "wf_world w \<and> mounted w"
proof -
  let ?w0 = "loadEffect (initial st now)"
  from loadEffect_wf [of "initial st now"] wf_initial [of st now]
  have l: "wf_world ?w0" "saves ?w0 = []" "mounted ?w0" by simp_all
  then have a: "wf_world (?w0\<lparr>hasCleanup := False\<rparr>)" by (simp add: wf_quiet)
  from assms have b: "rerender (?w0\<lparr>hasCleanup := False\<rparr>) = Inr w"
    by (simp add: mount_def autoSaveEffect_def formEmpty_initial)
  have c: "mounted (?w0\<lparr>hasCleanup := False\<rparr>)" using l by simp
  from a c b show ?thesis by (rule rerender_wf)
qed

lemma edit_wf: "wf_world w \<Longrightarrow> edit d w = Inr w' \<Longrightarrow> wf_world w'"
proof (cases "mounted w")
  case True
  assume "wf_world w" "edit d w = Inr w'"
  with True rerender_wf [of "setForm d w" w'] show ?thesis by (simp add: edit_def wf_setForm)
next
  case False
  assume "wf_world w" "edit d w = Inr w'"
  with False show ?thesis by (simp add: edit_def)
qed

lemma handleClear_wf: "wf_world w \<Longrightarrow> handleClear c w = Inr w' \<Longrightarrow> wf_world w'"
proof (cases "mounted w \<and> c")
  case True
  assume wf: "wf_world w" and h: "handleClear c w = Inr w'"
  let ?w1 = "setStatus Idle (setLastSaved JNull (setForm initial_form w))"
  let ?w2 = "case removeItem STORAGE_KEY (storage ?w1) of Inl e \<Rightarrow> ?w1 | Inr st \<Rightarrow> ?w1\<lparr>storage := st\<rparr>"
  have "wf_world ?w2 \<and> mounted ?w2" using wf True
    by (simp add: wf_setForm wf_setStatus wf_setLastSaved split: sum.splits)
  moreover from h True have "rerender ?w2 = Inr w'" by (simp add: handleClear_def Let_def)
  ultimately show ?thesis using rerender_wf [of ?w2 w'] by blast
next
  case False
  assume "wf_world w" "handleClear c w = Inr w'"
  with False show ?thesis by (auto simp: handleClear_def split: if_splits)
qed

lemma saves_unmount: "wf_world w \<Longrightarrow> saves (unmount w) = []"
proof (cases "mounted w")
  case True
  assume "wf_world w"
  with True show ?thesis by (simp add: unmount_def saves_cleanup)
next
  case False
  assume "wf_world w"
  then have "\<forall>t \<in> set (saves w). mounted w" unfolding wf_world_def list_all_iff by blast
  with False have "saves w = []" by (cases "saves w") auto
  with False show ?thesis by (simp add: unmount_def)
qed

lemma unmount_wf: "wf_world w \<Longrightarrow> wf_world (unmount w)"
proof (cases "mounted w")
  case True
  assume "wf_world w"
  then have "wf_world (cleanup w)" "saves (cleanup w) = []"
    by (simp_all add: wf_cleanup saves_cleanup)
  then have "wf_world ((cleanup w)\<lparr>mounted := False, hasCleanup := False\<rparr>)"
    by (rule wf_quiet_unmounted [rotated])
  with True show ?thesis by (simp add: unmount_def)
next
  case False
  assume "wf_world w"
  with False show ?thesis by (simp add: unmount_def)
qed

lemma step_wf: "wf_world w \<Longrightarrow> step e w = Inr w' \<Longrightarrow> wf_world w'"
proof (cases e)
  case (Change name v)
  assume "wf_world w" "step e w = Inr w'"
  with Change show ?thesis by (auto simp: handleChange_def dest: edit_wf)
next
  case (Clear c)
  assume "wf_world w" "step e w = Inr w'"
  with Clear show ?thesis by (auto dest: handleClear_wf)
next
  case ManualSave
  assume "wf_world w" "step e w = Inr w'"
  with ManualSave show ?thesis
    by (auto simp: handleManualSave_def wf_saveToLocalStorage wf_clearTimeout split: if_splits)
next
  case Tick
  assume "wf_world w" "step e w = Inr w'"
  with Tick show ?thesis by (auto simp: wf_tick)
next
  case Unmount
  assume "wf_world w" "step e w = Inr w'"
  with Unmount show ?thesis by (auto simp: unmount_wf)
qed

lemma reachable_wf: "reachable w \<Longrightarrow> wf_world w"
  by (induction rule: reachable.induct) (auto dest: mount_wf step_wf)

lemmas char_defs = is_digit_def is_space_def is_hex_def hex_digit_def is_lower_def is_num_char_def
lemmas date_defs = toISOString_def clock_text_def civil_def era_day_def year_day_def month_day_def
  pad2_def pad3_def pad4_def pad6_def digit_char_def
lemmas stringify_defs = record_text_def quote_def quote_char_def hex_char_def
lemmas parse_defs = JSON_parse_def start_def unescape_def complete_def word_value_def
  open_value_def close_frame_def set_key_def valid_number_def valid_fraction_def
  valid_exponent_def obj_set_def array_index_def dec_value_def show_nat.simps
lemmas storage_defs = getItem_def setItem_def removeItem_def used_def STORAGE_KEY_def
lemmas component_defs = mount_def initial_def loadEffect_def autoSaveEffect_def formEmpty_def
  initial_form_def rerender_def cleanup_def edit_def handleChange_def handleClear_def
  handleManualSave_def saveToLocalStorage_def setForm_def setStatus_def setLastSaved_def
  setTimeout_def unmount_def doc_def

lemma mount_empty_store: "mount empty_store 0 = Inr (initial empty_store 0)"
  by (simp add: component_defs storage_defs empty_store_def)

lemma typing_world_step:
  "step (Change ''title'' ''A'') (initial empty_store 0) = Inr typing_world"
  by (simp add: component_defs storage_defs parse_defs char_defs empty_store_def typing_world_def)

lemma reachable_typing_world: "reachable typing_world"
  using reach_step [OF reach_mount [OF mount_empty_store] typing_world_step] .

lemma unmount_fields [simp]: "setCalls (unmount w) = setCalls w" "storage (unmount w) = storage w"
  by (simp_all add: unmount_def)










lemma advance_add: "advance (a + b) w = advance b (advance a w)"
  by (induction a arbitrary: w) simp_all





lemma reachable_advance: "reachable w \<Longrightarrow> reachable (advance k w)"
proof (induction k arbitrary: w)
  case 0
  then show ?case by simp
next
  case (Suc k)
  have "step Tick w = Inr (tick w)" by simp
  with Suc.prems have "reachable (tick w)" by (rule reach_step)
  then show ?case using Suc.IH by simp
qed

lemma tick_idle:
  assumes "list_all (\<lambda>t. 1 < remaining t) (timers w)"
  shows "tick w = w\<lparr>clock := Suc (clock w),
                    timers := map (\<lambda>t. t\<lparr>remaining := remaining t - 1\<rparr>) (timers w)\<rparr>"
proof -
  from assms have "filter (\<lambda>t. remaining t = 0)
      (map (\<lambda>t. t\<lparr>remaining := remaining t - 1\<rparr>) (timers w)) = []"
    by (auto simp: filter_empty_conv list_all_iff)
  then show ?thesis by (simp add: tick_def Let_def)
qed

lemma advance_idle:
  "list_all (\<lambda>t. k < remaining t) (timers w) \<Longrightarrow>
     advance k w = w\<lparr>clock := clock w + k,
                     timers := map (\<lambda>t. t\<lparr>remaining := remaining t - k\<rparr>) (timers w)\<rparr>"
proof (induction k arbitrary: w)
  case 0
  have "map (\<lambda>t. t\<lparr>remaining := remaining t\<rparr>) (timers w) = timers w" by (induction "timers w") auto
  then show ?case by simp
next
  case (Suc k)
  from Suc.prems have "list_all (\<lambda>t. 1 < remaining t) (timers w)"
    by (auto simp: list_all_iff)
  then have t: "tick w = w\<lparr>clock := Suc (clock w),
                    timers := map (\<lambda>t. t\<lparr>remaining := remaining t - 1\<rparr>) (timers w)\<rparr>"
    by (rule tick_idle)
  let ?w1 = "w\<lparr>clock := Suc (clock w),
                timers := map (\<lambda>t. t\<lparr>remaining := remaining t - 1\<rparr>) (timers w)\<rparr>"
  from Suc.prems have "list_all (\<lambda>t. k < remaining t) (timers ?w1)"
    by (auto simp: list_all_iff)
  from Suc.IH [OF this] have "advance k ?w1 = w\<lparr>clock := clock w + Suc k,
      timers := map (\<lambda>t. t\<lparr>remaining := remaining t - Suc k\<rparr>) (timers w)\<rparr>"
    by (simp add: comp_def)
  moreover have "advance (Suc k) w = advance k ?w1" by (simp add: t)
  ultimately show ?case by simp
qed

lemma run_append:
  "run (xs @ ys) w = (case run xs w of Inl e \<Rightarrow> Inl e | Inr w' \<Rightarrow> run ys w')"
  by (induction xs arbitrary: w) (simp_all split: sum.splits)

lemma run_ticks: "run (replicate k Tick) w = Inr (advance k w)"
  by (induction k arbitrary: w) simp_all

lemma advance_Suc_end: "advance (Suc k) w = tick (advance k w)"
  using advance_add [of k 1 w] by simp

lemmas tick_defs = tick_def fire_def

lemma saveToLocalStorage_accepted:
  assumes "mounted w" "setItem STORAGE_KEY (record_text f (clock w)) (storage w) = Inr st"
  shows "saveToLocalStorage f w =
     (clearTimeout (statusTimerRef w) w)
       \<lparr>status := Saving, lastSaved := JStr (toISOString (clock w)),
        statusTimerRef := Some (nextId w),
        timers := timers (clearTimeout (statusTimerRef w) w)
                    @ [\<lparr>tid = nextId w, remaining = 500, cb = ShowSaved\<rparr>],
        nextId := Suc (nextId w), storage := st,
        setCalls := setCalls w @ [(STORAGE_KEY, record_text f (clock w))]\<rparr>"
  using assms
  by (cases "statusTimerRef w")
    (simp_all add: saveToLocalStorage_def Let_def setStatus_def setLastSaved_def setTimeout_def)

lemma iso_0: "toISOString 0 = ''1970-01-01T00:00:00.000Z''"
  by (simp add: date_defs)

lemma iso_2000: "toISOString 2000 = ''1970-01-01T00:00:02.000Z''"
  by (simp add: date_defs)

lemma iso_7000: "toISOString 7000 = ''1970-01-01T00:00:07.000Z''"
  by (simp add: date_defs)

lemma text_blank: "record_text initial_form 0 = blank_text"
  by (simp add: stringify_defs iso_0 initial_form_def blank_text_def)

lemma text_saved: "record_text (doc ''A'' []) 2000 = saved_text"
  by (simp add: stringify_defs iso_2000 doc_def saved_text_def)

lemma text_resaved: "record_text (doc ''A'' []) 7000 = resaved_text"
  by (simp add: stringify_defs iso_7000 doc_def resaved_text_def)

lemma setItem_blank:
  "setItem STORAGE_KEY blank_text empty_store = Inr (empty_store\<lparr>items := [(STORAGE_KEY, blank_text)]\<rparr>)"
  by (simp add: storage_defs empty_store_def blank_text_def)

lemma setItem_saved:
  "setItem STORAGE_KEY saved_text empty_store = Inr (empty_store\<lparr>items := [(STORAGE_KEY, saved_text)]\<rparr>)"
  by (simp add: storage_defs empty_store_def saved_text_def)

lemma setItem_resaved:
  "setItem STORAGE_KEY resaved_text (empty_store\<lparr>items := [(STORAGE_KEY, saved_text)]\<rparr>)
     = Inr (empty_store\<lparr>items := [(STORAGE_KEY, resaved_text)]\<rparr>)"
  by (simp add: storage_defs empty_store_def resaved_text_def)

lemma saved_world_advance: "advance 2000 typing_world = saved_world"
proof -
  let ?w = "typing_world\<lparr>clock := 1999,
      timers := [\<lparr>tid = 1, remaining = 1, cb = RunSave (doc ''A'' [])\<rparr>]\<rparr>"
  let ?w1 = "typing_world\<lparr>clock := 2000, timers := []\<rparr>"
  have a: "advance 1999 typing_world = ?w"
    by (subst advance_idle) (simp_all add: typing_world_def SAVE_DELAY_def)
  have t: "tick ?w = saveToLocalStorage (doc ''A'' []) ?w1"
    by (simp add: tick_defs typing_world_def)
  have m: "mounted ?w1" by (simp add: typing_world_def)
  have i: "setItem STORAGE_KEY (record_text (doc ''A'' []) (clock ?w1)) (storage ?w1)
      = Inr (empty_store\<lparr>items := [(STORAGE_KEY, saved_text)]\<rparr>)"
    by (simp add: typing_world_def text_saved setItem_saved)
  have s: "saveToLocalStorage (doc ''A'' []) ?w1 = saved_world"
    using saveToLocalStorage_accepted [OF m i]
    by (simp add: typing_world_def saved_world_def text_saved iso_2000)
  have "advance 2000 typing_world = tick (advance 1999 typing_world)"
    using advance_Suc_end [of 1999 typing_world] by simp
  then show ?thesis by (simp only: a t s)
qed

lemma manual_save_initial:
  "handleManualSave (initial empty_store 0) =
     Inr ((initial empty_store 0)
       \<lparr>status := Saving, lastSaved := JStr ''1970-01-01T00:00:00.000Z'',
        statusTimerRef := Some 1, timers := [\<lparr>tid = 1, remaining = 500, cb = ShowSaved\<rparr>],
        nextId := 2, storage := empty_store\<lparr>items := [(STORAGE_KEY, blank_text)]\<rparr>,
        setCalls := [(STORAGE_KEY, blank_text)]\<rparr>)"
proof -
  let ?w = "initial empty_store 0"
  have m: "mounted ?w" by (simp add: initial_def)
  have i: "setItem STORAGE_KEY (record_text initial_form (clock ?w)) (storage ?w)
      = Inr (empty_store\<lparr>items := [(STORAGE_KEY, blank_text)]\<rparr>)"
    by (simp add: initial_def text_blank setItem_blank)
  have "handleManualSave ?w = Inr (saveToLocalStorage initial_form ?w)"
    by (simp add: handleManualSave_def initial_def)
  also have "saveToLocalStorage initial_form ?w = ?w
       \<lparr>status := Saving, lastSaved := JStr ''1970-01-01T00:00:00.000Z'',
        statusTimerRef := Some 1, timers := [\<lparr>tid = 1, remaining = 500, cb = ShowSaved\<rparr>],
        nextId := 2, storage := empty_store\<lparr>items := [(STORAGE_KEY, blank_text)]\<rparr>,
        setCalls := [(STORAGE_KEY, blank_text)]\<rparr>"
    using saveToLocalStorage_accepted [OF m i] by (simp add: initial_def text_blank iso_0)
  finally show ?thesis .
qed

lemma text_typed:
  \<open>record_text (doc ''A'' []) 0
     = ''{"form":{"title":"A","content":""},"timestamp":"1970-01-01T00:00:00.000Z"}''\<close>
  by (simp add: stringify_defs iso_0 doc_def)

lemma saved_world_run:
  "run (Change ''title'' ''A'' # replicate 2000 Tick) (initial empty_store 0) = Inr saved_world"
  using typing_world_step by (simp add: run_ticks saved_world_advance)

section \<open>The claims\<close>

subsection \<open>C1: an empty document is not saved\<close>

text \<open>
  Claim C1 says that while the document is empty no operation sets the status to
  \<open>Saving\<close> or \<open>Saved\<close> and none writes to the store. The auto-save effect has the
  guard, the manual save has not: on the freshly mounted component, whose document is
  empty, \<open>handleManualSave\<close> sets the status to \<open>Saving\<close> and writes the empty document,
  and 500 ms later the status is \<open>Saved\<close>.
\<close>

theorem manual_save_writes_empty_form:
  "mount empty_store 0 = Inr (initial empty_store 0)
   \<and> formEmpty (form (initial empty_store 0)) = Inr True
   \<and> map_sum id (\<lambda>w. (status w, setCalls w, items (storage w)))
        (handleManualSave (initial empty_store 0))
      = Inr (Saving, [(STORAGE_KEY, blank_text)], [(STORAGE_KEY, blank_text)])
   \<and> map_sum id status (run (ManualSave # replicate 500 Tick) (initial empty_store 0)) = Inr Saved"
proof -
  let ?ms = "(initial empty_store 0)
       \<lparr>status := Saving, lastSaved := JStr ''1970-01-01T00:00:00.000Z'',
        statusTimerRef := Some 1, timers := [\<lparr>tid = 1, remaining = 500, cb = ShowSaved\<rparr>],
        nextId := 2, storage := empty_store\<lparr>items := [(STORAGE_KEY, blank_text)]\<rparr>,
        setCalls := [(STORAGE_KEY, blank_text)]\<rparr>"
  have e: "formEmpty (form (initial empty_store 0)) = Inr True"
    by (simp add: initial_def formEmpty_initial)
  have h: "handleManualSave (initial empty_store 0) = Inr ?ms" by (rule manual_save_initial)
  have a: "advance 499 ?ms = ?ms\<lparr>clock := 499, timers := [\<lparr>tid = 1, remaining = 1, cb = ShowSaved\<rparr>]\<rparr>"
    by (subst advance_idle) (simp_all add: initial_def)
  have "advance 500 ?ms = tick (advance 499 ?ms)" using advance_Suc_end [of 499 ?ms] by simp
  then have "advance 500 ?ms = tick (?ms\<lparr>clock := 499, timers := [\<lparr>tid = 1, remaining = 1, cb = ShowSaved\<rparr>]\<rparr>)"
    by (simp only: a)
  then have "status (advance 500 ?ms) = Saved" by (simp add: tick_defs setStatus_def initial_def)
  then have r: "map_sum id status (run (ManualSave # replicate 500 Tick) (initial empty_store 0)) = Inr Saved"
    by (simp add: h run_ticks)
  have p: "map_sum id (\<lambda>w. (status w, setCalls w, items (storage w)))
        (handleManualSave (initial empty_store 0))
      = Inr (Saving, [(STORAGE_KEY, blank_text)], [(STORAGE_KEY, blank_text)])"
    by (simp add: h)
  from mount_empty_store e p r show ?thesis by (intro conjI)
qed

subsection \<open>C2: a burst of edits is one write\<close>



subsection \<open>C3: no write after teardown\<close>

text \<open>
  Claim C3. After the component is unmounted, however much time passes,
  \<^verbatim>\<open>localStorage.setItem\<close> is never called again and the store keeps its contents.
\<close>

theorem no_write_after_unmount:
  assumes "reachable w"
  shows "setCalls (advance k (unmount w)) = setCalls w \<and> storage (advance k (unmount w)) = storage w"
proof -
  from assms have "wf_world w" by (rule reachable_wf)
  then have "saves (unmount w) = []" by (rule saves_unmount)
  then show ?thesis by (simp add: advance_quiet advance_quiet_storage)
qed

theorem no_write_after_unmount_witness:
  "reachable typing_world \<and> saves typing_world \<noteq> []
   \<and> setCalls (advance (2 * SAVE_DELAY) (unmount typing_world)) = setCalls typing_world
   \<and> storage (advance (2 * SAVE_DELAY) (unmount typing_world)) = storage typing_world"
proof -
  have "saves typing_world \<noteq> []" by (simp add: saves_def typing_world_def)
  with reachable_typing_world no_write_after_unmount [OF reachable_typing_world, of "2 * SAVE_DELAY"]
  show ?thesis by simp
qed

subsection \<open>C4: teardown and the feedback timer\<close>

text \<open>
  Claim C4 says that unmounting cancels the pending feedback timer. The cleanup clears
  only the timer of \<^verbatim>\<open>saveTimerRef\<close>: in the world reached by typing ``A'' and waiting
  for the save, the feedback timer is pending; it is still pending after the unmount, and
  it is run 500 ms later.
\<close>

theorem unmount_leaves_feedback_timer:
  "run (Change ''title'' ''A'' # replicate 2000 Tick) (initial empty_store 0) = Inr saved_world
   \<and> map cb (timers saved_world) = [ShowSaved]
   \<and> map cb (timers (unmount saved_world)) = [ShowSaved]
   \<and> map cb (timers (advance 499 (unmount saved_world))) = [ShowSaved]
   \<and> timers (advance 500 (unmount saved_world)) = []"
proof -
  let ?u = "saved_world\<lparr>mounted := False, hasCleanup := False\<rparr>"
  have u: "unmount saved_world = ?u" by (simp add: unmount_def cleanup_def saved_world_def)
  have a: "advance 499 ?u = ?u\<lparr>clock := 2499, timers := [\<lparr>tid = 2, remaining = 1, cb = ShowSaved\<rparr>]\<rparr>"
    by (subst advance_idle) (simp_all add: saved_world_def)
  have "advance 500 ?u = tick (advance 499 ?u)" using advance_Suc_end [of 499 ?u] by simp
  then have "advance 500 ?u = tick (?u\<lparr>clock := 2499, timers := [\<lparr>tid = 2, remaining = 1, cb = ShowSaved\<rparr>]\<rparr>)"
    by (simp only: a)
  then have "timers (advance 500 ?u) = []" by (simp add: tick_defs setStatus_def saved_world_def)
  with saved_world_run u a show ?thesis by (simp add: saved_world_def)
qed

subsection \<open>C5: clear and the feedback timer\<close>

text \<open>
  Claim C5 says that a confirmed clear cancels every pending timer and that no timer
  changes the status afterwards. The clear resets the document, the status and the
  timestamp and removes the store entry, but the feedback timer of a save that has just
  succeeded stays pending, and 500 ms after that save it sets the status to \<open>Saved\<close>.
\<close>

theorem clear_leaves_feedback_timer:
  "run (Change ''title'' ''A'' # replicate 2000 Tick) (initial empty_store 0) = Inr saved_world
   \<and> map_sum id (\<lambda>w. (status w, form w, lastSaved w, items (storage w), map cb (timers w)))
        (handleClear True saved_world)
      = Inr (Idle, initial_form, JNull, [], [ShowSaved])
   \<and> map_sum id status (run (Clear True # replicate 500 Tick) saved_world) = Inr Saved"
proof -
  let ?c = "saved_world\<lparr>form := initial_form, status := Idle, lastSaved := JNull,
      hasCleanup := False, storage := empty_store\<rparr>"
  have c: "handleClear True saved_world = Inr ?c"
    by (simp add: component_defs storage_defs saved_world_def empty_store_def Let_def)
  have a: "advance 499 ?c = ?c\<lparr>clock := 2499, timers := [\<lparr>tid = 2, remaining = 1, cb = ShowSaved\<rparr>]\<rparr>"
    by (subst advance_idle) (simp_all add: saved_world_def)
  have "advance 500 ?c = tick (advance 499 ?c)" using advance_Suc_end [of 499 ?c] by simp
  then have "advance 500 ?c = tick (?c\<lparr>clock := 2499, timers := [\<lparr>tid = 2, remaining = 1, cb = ShowSaved\<rparr>]\<rparr>)"
    by (simp only: a)
  then have "status (advance 500 ?c) = Saved"
    by (simp add: tick_defs setStatus_def saved_world_def)
  with c have "map_sum id status (run (Clear True # replicate 500 Tick) saved_world) = Inr Saved"
    by (simp add: run_ticks)
  with saved_world_run c show ?thesis by (simp add: saved_world_def empty_store_def)
qed

subsection \<open>C6: a failed write\<close>

text \<open>
  Claim C6. When \<^verbatim>\<open>setItem\<close> raises inside \<open>saveToLocalStorage\<close>, the status becomes
  \<open>Error\<close>, the last-saved timestamp and the store stay as they were and no timer is
  armed; nothing tries the write again, so from a world without a pending save no further
  call of \<^verbatim>\<open>setItem\<close> follows, however much time passes. The exception is caught: the
  manual save returns normally with the world \<open>saveToLocalStorage\<close> left.
\<close>

theorem save_failure:
  assumes "mounted w" "setItem STORAGE_KEY (record_text f (clock w)) (storage w) = Inl e"
  shows "status (saveToLocalStorage f w) = Error
       \<and> lastSaved (saveToLocalStorage f w) = lastSaved w
       \<and> storage (saveToLocalStorage f w) = storage w
       \<and> timers (saveToLocalStorage f w) = timers w
       \<and> nextId (saveToLocalStorage f w) = nextId w
       \<and> (saves w = [] \<longrightarrow>
            setCalls (advance k (saveToLocalStorage f w)) = setCalls (saveToLocalStorage f w)
            \<and> storage (advance k (saveToLocalStorage f w)) = storage w)
       \<and> handleManualSave w
           = Inr (saveToLocalStorage (form w) (clearTimeout (saveTimerRef w) w))"
proof -
  from assms have now: "status (saveToLocalStorage f w) = Error
       \<and> lastSaved (saveToLocalStorage f w) = lastSaved w
       \<and> storage (saveToLocalStorage f w) = storage w
       \<and> timers (saveToLocalStorage f w) = timers w
       \<and> nextId (saveToLocalStorage f w) = nextId w"
    by (simp add: saveToLocalStorage_def Let_def setStatus_def)
  have later: "setCalls (advance k (saveToLocalStorage f w)) = setCalls (saveToLocalStorage f w)
       \<and> storage (advance k (saveToLocalStorage f w)) = storage w" if "saves w = []"
  proof -
    from that have "saves (saveToLocalStorage f w) = []" by (rule saves_saveToLocalStorage)
    with now show ?thesis by (simp add: advance_quiet advance_quiet_storage)
  qed
  have "handleManualSave w = Inr (saveToLocalStorage (form w) (clearTimeout (saveTimerRef w) w))"
    using assms(1) by (simp add: handleManualSave_def)
  with now later show ?thesis by blast
qed

theorem save_failure_witness:
  "mounted (typing_world\<lparr>timers := [], storage := empty_store\<lparr>capacity := 10\<rparr>\<rparr>)
   \<and> setItem STORAGE_KEY
        (record_text (doc ''A'' []) (clock (typing_world\<lparr>timers := [], storage := empty_store\<lparr>capacity := 10\<rparr>\<rparr>)))
        (storage (typing_world\<lparr>timers := [], storage := empty_store\<lparr>capacity := 10\<rparr>\<rparr>))
      = Inl QuotaExceededError
   \<and> saves (typing_world\<lparr>timers := [], storage := empty_store\<lparr>capacity := 10\<rparr>\<rparr>) = []
   \<and> status (saveToLocalStorage (doc ''A'' [])
        (typing_world\<lparr>timers := [], storage := empty_store\<lparr>capacity := 10\<rparr>\<rparr>)) = Error
   \<and> setCalls (advance 5000 (saveToLocalStorage (doc ''A'' [])
        (typing_world\<lparr>timers := [], storage := empty_store\<lparr>capacity := 10\<rparr>\<rparr>)))
      = setCalls (saveToLocalStorage (doc ''A'' [])
        (typing_world\<lparr>timers := [], storage := empty_store\<lparr>capacity := 10\<rparr>\<rparr>))"
proof -
  let ?w = "typing_world\<lparr>timers := [], storage := empty_store\<lparr>capacity := 10\<rparr>\<rparr>"
  have m: "mounted ?w" by (simp add: typing_world_def)
  have f: "setItem STORAGE_KEY (record_text (doc ''A'' []) (clock ?w)) (storage ?w)
             = Inl QuotaExceededError"
    by (simp add: typing_world_def empty_store_def storage_defs text_typed)
  have q: "saves ?w = []" by (simp add: saves_def)
  from m f q save_failure [OF m f, of 5000] show ?thesis by simp
qed

subsection \<open>C7: nothing usable in the store\<close>




subsection \<open>C8: mounting on a saved record\<close>

text \<open>
  Claim C8 says that mounting on the record of an earlier save reads back the document
  and the timestamp and ends with status \<open>Saved\<close>. The document and the timestamp are
  read back, but the auto-save effect then runs for the loaded document: the mount ends
  with status \<open>Unsaved\<close> and a save timer pending, and 2000 ms later the record is written
  again under a new timestamp.
\<close>

theorem mount_after_save_is_unsaved:
  "run (Change ''title'' ''A'' # replicate 2000 Tick) (initial empty_store 0) = Inr saved_world
   \<and> storage saved_world = empty_store\<lparr>items := [(STORAGE_KEY, saved_text)]\<rparr>
   \<and> lastSaved saved_world = JStr ''1970-01-01T00:00:02.000Z''
   \<and> map_sum id (\<lambda>w. (form w, lastSaved w, status w, map cb (timers w)))
        (mount (storage saved_world) 5000)
      = Inr (doc ''A'' [], JStr ''1970-01-01T00:00:02.000Z'', Unsaved,
             [ShowLoaded, RunSave (doc ''A'' [])])
   \<and> map_sum id (\<lambda>w. (lastSaved (advance 2000 w), setCalls (advance 2000 w)))
        (mount (storage saved_world) 5000)
      = Inr (JStr ''1970-01-01T00:00:07.000Z'', [(STORAGE_KEY, resaved_text)])"
proof -
  let ?m = "\<lparr>form = doc ''A'' [], status = Unsaved, lastSaved = JStr ''1970-01-01T00:00:02.000Z'',
      saveTimerRef = Some 2, statusTimerRef = None,
      formChanged = False, hasCleanup = True, mounted = True,
      timers = [\<lparr>tid = 1, remaining = 2000, cb = ShowLoaded\<rparr>,
                \<lparr>tid = 2, remaining = 2000, cb = RunSave (doc ''A'' [])\<rparr>],
      nextId = 3, clock = 5000, storage = empty_store\<lparr>items := [(STORAGE_KEY, saved_text)]\<rparr>,
      setCalls = []\<rparr>"
  let ?due = "?m\<lparr>clock := 6999,
      timers := [\<lparr>tid = 1, remaining = 1, cb = ShowLoaded\<rparr>,
                 \<lparr>tid = 2, remaining = 1, cb = RunSave (doc ''A'' [])\<rparr>]\<rparr>"
  let ?x = "?m\<lparr>clock := 7000, status := Saved, timers := []\<rparr>"
  have p: "JSON_parse saved_text
      = Inr (JObj [(''form'', doc ''A'' []), (''timestamp'', JStr ''1970-01-01T00:00:02.000Z'')])"
    by (simp add: saved_text_def parse_defs char_defs doc_def)
  have ne: "saved_text \<noteq> []" by (simp add: saved_text_def)
  have m: "mount (storage saved_world) 5000 = Inr ?m"
    by (simp add: component_defs storage_defs saved_world_def empty_store_def p ne SAVE_DELAY_def)
  have a: "advance 1999 ?m = ?due"
    by (subst advance_idle) simp_all
  have t: "tick ?due = saveToLocalStorage (doc ''A'' []) ?x"
    by (simp add: tick_defs setStatus_def)
  have mx: "mounted ?x" by simp
  have i: "setItem STORAGE_KEY (record_text (doc ''A'' []) (clock ?x)) (storage ?x)
      = Inr (empty_store\<lparr>items := [(STORAGE_KEY, resaved_text)]\<rparr>)"
    by (simp add: text_resaved setItem_resaved)
  have s: "lastSaved (saveToLocalStorage (doc ''A'' []) ?x) = JStr ''1970-01-01T00:00:07.000Z''
      \<and> setCalls (saveToLocalStorage (doc ''A'' []) ?x) = [(STORAGE_KEY, resaved_text)]"
    using saveToLocalStorage_accepted [OF mx i] by (simp add: text_resaved iso_7000)
  have "advance 2000 ?m = tick (advance 1999 ?m)" using advance_Suc_end [of 1999 ?m] by simp
  then have "advance 2000 ?m = saveToLocalStorage (doc ''A'' []) ?x" by (simp only: a t)
  with s have l: "lastSaved (advance 2000 ?m) = JStr ''1970-01-01T00:00:07.000Z''
      \<and> setCalls (advance 2000 ?m) = [(STORAGE_KEY, resaved_text)]"
    by (simp only:)
  have q1: "map_sum id (\<lambda>w. (form w, lastSaved w, status w, map cb (timers w)))
        (mount (storage saved_world) 5000)
      = Inr (doc ''A'' [], JStr ''1970-01-01T00:00:02.000Z'', Unsaved,
             [ShowLoaded, RunSave (doc ''A'' [])])"
    by (simp add: m)
  have q2: "map_sum id (\<lambda>w. (lastSaved (advance 2000 w), setCalls (advance 2000 w)))
        (mount (storage saved_world) 5000)
      = Inr (JStr ''1970-01-01T00:00:07.000Z'', [(STORAGE_KEY, resaved_text)])"
    using l by (simp add: m)
  have q3: "storage saved_world = empty_store\<lparr>items := [(STORAGE_KEY, saved_text)]\<rparr>"
    "lastSaved saved_world = JStr ''1970-01-01T00:00:02.000Z''"
    by (simp_all add: saved_world_def)
  from saved_world_run q3 q1 q2 show ?thesis by (intro conjI)
qed

subsection \<open>C9: an edit to the empty document\<close>



subsection \<open>C10: a declined clear\<close>

text \<open>
  Claim C10. When the confirmation prompt of the clear button is declined, nothing
  changes: the document, the status, the last-saved timestamp, every pending timer and
  the store are those of the world before.
\<close>

theorem clear_declined_noop: "handleClear False w = Inr w"
  by (simp add: handleClear_def)

end
